theory Spec2Isabelle
  imports Main
begin

section \<open>The plugin client decorator: pkg/plugins/manager/client/decorator.go\<close>

subsection \<open>Go values: errors, panics, slices over a store of backing arrays\<close>

text \<open>
  The file uses two kinds of error value: the package variable \<open>errNilRequest\<close>
  (declared in another file of the package; it is taken as a constant) and the results
  of \<open>errors.New(msg)\<close>. A nil error is \<open>None :: error option\<close>.
\<close>

datatype error = errNilRequest | errorsNew string

text \<open>
  Run-time panics: a method call on a nil interface value, and an index out of range.
\<close>

datatype panic = NilDereference | IndexOutOfRange

text \<open>
  A Go slice is a window (\<open>off\<close>, \<open>len\<close>) into a backing array that other slices may
  share. The store holds the backing arrays; an address is an index into it, and
  allocation appends. The nil slice has length 0 and names no array.
\<close>

type_synonym 'a heap = "'a list list"

record slice =
  arr :: nat
  off :: nat
  len :: nat

definition valid_slice :: "'a heap \<Rightarrow> slice \<Rightarrow> bool" where
  "valid_slice h s =
     (len s = 0 \<or> (arr s < length h \<and> off s + len s \<le> length (h ! arr s)))"

definition slice_elems :: "'a heap \<Rightarrow> slice \<Rightarrow> 'a list" where
  "slice_elems h s = (if len s = 0 then [] else take (len s) (drop (off s) (h ! arr s)))"

text \<open>\<open>s[i]\<close> as an expression and as an assignment target; Go indices are signed.\<close>

definition slice_get :: "'a heap \<Rightarrow> slice \<Rightarrow> int \<Rightarrow> panic + 'a" where
  "slice_get h s i =
     (if 0 \<le> i \<and> i < int (len s) \<and> arr s < length h \<and> off s + nat i < length (h ! arr s)
      then Inr (h ! arr s ! (off s + nat i))
      else Inl IndexOutOfRange)"

definition slice_set :: "'a heap \<Rightarrow> slice \<Rightarrow> int \<Rightarrow> 'a \<Rightarrow> panic + 'a heap" where
  "slice_set h s i v =
     (if 0 \<le> i \<and> i < int (len s) \<and> arr s < length h \<and> off s + nat i < length (h ! arr s)
      then Inr (h[arr s := (h ! arr s)[off s + nat i := v]])
      else Inl IndexOutOfRange)"

text \<open>
  \<open>make([]T, n)\<close> for an interface type \<open>T\<close>: a fresh array of \<open>n\<close> nil values.
  \<open>copy(dst, src)\<close> writes the first \<open>min(len(dst), len(src))\<close> elements of \<open>src\<close>
  into \<open>dst\<close>.
\<close>

definition make_slice :: "'a option heap \<Rightarrow> nat \<Rightarrow> 'a option heap \<times> slice" where
  "make_slice h n = (h @ [replicate n None], \<lparr>arr = length h, off = 0, len = n\<rparr>)"

definition copy_slice :: "'a heap \<Rightarrow> slice \<Rightarrow> slice \<Rightarrow> 'a heap" where
  "copy_slice h dst src =
     (let n = min (len dst) (len src) in
      if n = 0 then h
      else let vals = take n (drop (off src) (h ! arr src));
               a = h ! arr dst
           in h[arr dst := take (off dst) a @ vals @ drop (off dst + n) a])"

subsection \<open>reverseMiddlewares\<close>

text \<open>
  The swap loop \<open>for i, j := 0, len(reversed)-1; i < j; i, j = i+1, j-1\<close>. The tuple
  assignment reads both operands before it writes either.
\<close>

function reverse_loop :: "'a heap \<Rightarrow> slice \<Rightarrow> int \<Rightarrow> int \<Rightarrow> panic + 'a heap" where
  "reverse_loop h reversed i j =
     (if i < j then
        (case slice_get h reversed j of
           Inl p \<Rightarrow> Inl p
         | Inr vj \<Rightarrow>
            (case slice_get h reversed i of
               Inl p \<Rightarrow> Inl p
             | Inr vi \<Rightarrow>
                (case slice_set h reversed i vj of
                   Inl p \<Rightarrow> Inl p
                 | Inr h1 \<Rightarrow>
                    (case slice_set h1 reversed j vi of
                       Inl p \<Rightarrow> Inl p
                     | Inr h2 \<Rightarrow> reverse_loop h2 reversed (i + 1) (j - 1)))))
      else Inr h)"
  by pat_completeness auto
termination
  by (relation "measure (\<lambda>(h, reversed, i, j). nat (j - i))") auto

declare reverse_loop.simps [simp del]

definition reverseMiddlewares ::
  "'m option heap \<Rightarrow> slice \<Rightarrow> panic + ('m option heap \<times> slice)" where
  "reverseMiddlewares h middlewares =
     (case make_slice h (len middlewares) of
        (h1, reversed) \<Rightarrow>
          (let h2 = copy_slice h1 reversed middlewares in
           case reverse_loop h2 reversed 0 (int (len reversed) - 1) of
             Inl p \<Rightarrow> Inl p
           | Inr h3 \<Rightarrow> Inr (h3, reversed)))"

subsection \<open>clientFromMiddlewares\<close>

text \<open>
  \<open>plugins.ClientMiddleware\<close> is an interface with the one method
  \<open>CreateClientMiddleware(next Client) Client\<close>. An implementation is arbitrary code:
  it is a function of the next client and of the state of the world \<open>'w\<close> that
  returns the wrapping client and the new state. A value of the interface type is an
  implementation or nil (\<open>None\<close>). The type \<open>'c\<close> is that of client values.
  Implementations act on \<open>'w\<close> only; the store of backing arrays is not in their reach.
\<close>

type_synonym ('c, 'w) ClientMiddleware = "'c \<Rightarrow> 'w \<Rightarrow> 'c \<times> 'w"

text \<open>
  \<open>for _, m := range reversed { next = m.CreateClientMiddleware(next) }\<close>, over the
  elements of the slice in index order. The method call on a nil entry panics.
\<close>

fun range_loop ::
  "('c, 'w) ClientMiddleware option list \<Rightarrow> 'c \<Rightarrow> 'w \<Rightarrow> (panic + 'c) \<times> 'w" where
  "range_loop [] next w = (Inr next, w)"
| "range_loop (m # ms) next w =
     (case m of
        None \<Rightarrow> (Inl NilDereference, w)
      | Some CreateClientMiddleware \<Rightarrow>
          (case CreateClientMiddleware next w of (next', w') \<Rightarrow> range_loop ms next' w'))"

definition clientFromMiddlewares ::
  "('c, 'w) ClientMiddleware option heap \<Rightarrow> slice \<Rightarrow> 'c \<Rightarrow> 'w
     \<Rightarrow> (panic + 'c) \<times> ('c, 'w) ClientMiddleware option heap \<times> 'w" where
  "clientFromMiddlewares h middlewares finalClient w =
     (if len middlewares = 0 then (Inr finalClient, h, w)
      else
        (case reverseMiddlewares h middlewares of
           Inl p \<Rightarrow> (Inl p, h, w)
         | Inr (h', reversed) \<Rightarrow>
             (case range_loop (slice_elems h' reversed) finalClient w of
                (r, w') \<Rightarrow> (r, h', w'))))"

text \<open>
  The chain of wrappers as a structural recursion on the list of middlewares, to
  compare the loop with: the head of the list wraps the chain built from the tail, so
  \<open>middlewares[0]\<close> is outermost and the last entry is applied to the final client
  itself. Each entry of the list is applied once. The innermost wrapper is created
  first.
\<close>

fun chain :: "('c, 'w) ClientMiddleware list \<Rightarrow> 'c \<Rightarrow> 'w \<Rightarrow> 'c \<times> 'w" where
  "chain [] finalClient w = (finalClient, w)"
| "chain (m # ms) finalClient w =
     (case chain ms finalClient w of (inner, w1) \<Rightarrow> m inner w1)"

text \<open>
  A middleware that records its own call: it runs \<open>m\<close> and appends the index \<open>i\<close>
  to a log kept beside the state of the world.
\<close>

definition traced ::
  "nat \<Rightarrow> ('c, 'w) ClientMiddleware \<Rightarrow> ('c, 'w \<times> nat list) ClientMiddleware" where
  "traced i m = (\<lambda>next (w, calls). case m next w of (c, w') \<Rightarrow> (c, (w', calls @ [i])))"

subsection \<open>The backend SDK's context and requests\<close>

text \<open>
  The SDK's types and context functions are imported, not defined in this repository.
  A context is the chain of values attached to it (\<open>context.WithValue\<close> wraps its
  parent); every request type has a \<open>PluginContext\<close> field, whose \<open>User\<close> is a
  pointer. Request and response payloads are opaque to the decorator: the type
  variable \<open>'b\<close> stands for the request bodies, \<open>'r\<close> for the response payloads and
  \<open>'s\<close> for the senders of \<open>CallResource\<close> and \<open>RunStream\<close>.
\<close>

datatype Endpoint =
    EndpointQueryData | EndpointCallResource | EndpointCollectMetrics | EndpointCheckHealth
  | EndpointSubscribeStream | EndpointPublishStream | EndpointRunStream
  | EndpointValidateAdmission | EndpointMutateAdmission | EndpointConvertObject

record PluginContext =
  PluginID :: string
  User :: "string option"

datatype ctxValue =
    ctxEndpoint Endpoint | ctxPluginContext PluginContext | ctxUser "string option"

type_synonym Context = "ctxValue list"

definition WithEndpoint :: "Context \<Rightarrow> Endpoint \<Rightarrow> Context" where
  "WithEndpoint ctx e = ctxEndpoint e # ctx"

definition WithPluginContext :: "Context \<Rightarrow> PluginContext \<Rightarrow> Context" where
  "WithPluginContext ctx pc = ctxPluginContext pc # ctx"

definition WithUser :: "Context \<Rightarrow> string option \<Rightarrow> Context" where
  "WithUser ctx u = ctxUser u # ctx"

record 'b Request =
  PluginContext :: PluginContext
  body :: 'b

subsection \<open>plugins.Client and the Decorator\<close>

text \<open>
  The \<open>plugins.Client\<close> interface: an implementation is a record of its ten methods,
  each arbitrary code acting on the state of the world. A method returns a result
  pointer and an error, or an error alone.
\<close>

record ('b, 'r, 's, 'w) Client =
  QueryData :: "Context \<Rightarrow> 'b Request \<Rightarrow> 'w \<Rightarrow> ('r option \<times> error option) \<times> 'w"
  CallResource :: "Context \<Rightarrow> 'b Request \<Rightarrow> 's \<Rightarrow> 'w \<Rightarrow> error option \<times> 'w"
  CollectMetrics :: "Context \<Rightarrow> 'b Request \<Rightarrow> 'w \<Rightarrow> ('r option \<times> error option) \<times> 'w"
  CheckHealth :: "Context \<Rightarrow> 'b Request \<Rightarrow> 'w \<Rightarrow> ('r option \<times> error option) \<times> 'w"
  SubscribeStream :: "Context \<Rightarrow> 'b Request \<Rightarrow> 'w \<Rightarrow> ('r option \<times> error option) \<times> 'w"
  PublishStream :: "Context \<Rightarrow> 'b Request \<Rightarrow> 'w \<Rightarrow> ('r option \<times> error option) \<times> 'w"
  RunStream :: "Context \<Rightarrow> 'b Request \<Rightarrow> 's \<Rightarrow> 'w \<Rightarrow> error option \<times> 'w"
  ValidateAdmission :: "Context \<Rightarrow> 'b Request \<Rightarrow> 'w \<Rightarrow> ('r option \<times> error option) \<times> 'w"
  MutateAdmission :: "Context \<Rightarrow> 'b Request \<Rightarrow> 'w \<Rightarrow> ('r option \<times> error option) \<times> 'w"
  ConvertObjects :: "Context \<Rightarrow> 'b Request \<Rightarrow> 'w \<Rightarrow> ('r option \<times> error option) \<times> 'w"

text \<open>A value of the interface type: an implementation, or nil.\<close>

type_synonym ('b, 'r, 's, 'w) ClientValue = "('b, 'r, 's, 'w) Client option"

type_synonym ('b, 'r, 's, 'w) Middlewares =
  "(('b, 'r, 's, 'w) ClientValue, 'w) ClientMiddleware option heap"

record ('b, 'r, 's, 'w) Decorator =
  client :: "('b, 'r, 's, 'w) ClientValue"
  middlewares :: slice

definition NewDecorator ::
  "('b, 'r, 's, 'w) ClientValue \<Rightarrow> slice \<Rightarrow> ('b, 'r, 's, 'w) Decorator option \<times> error option" where
  "NewDecorator cl mws =
     (if cl = None then (None, Some (errorsNew ''client cannot be nil''))
      else (Some \<lparr>client = cl, middlewares = mws\<rparr>, None))"

text \<open>
  A method call \<open>client.M(...)\<close> on an interface value: a panic on nil, the
  implementation's method otherwise.
\<close>

definition invoke ::
  "'c option \<Rightarrow> ('c \<Rightarrow> 'w \<Rightarrow> 'a \<times> 'w) \<Rightarrow> 'w \<Rightarrow> (panic + 'a) \<times> 'w" where
  "invoke c method w =
     (case c of
        None \<Rightarrow> (Inl NilDereference, w)
      | Some impl \<Rightarrow> (case method impl w of (a, w') \<Rightarrow> (Inr a, w')))"

text \<open>
  The ten methods. Each returns its results (or a panic), the store of backing arrays
  and the state of the world.
\<close>

definition Decorator_QueryData ::
  "('b, 'r, 's, 'w) Decorator \<Rightarrow> Context \<Rightarrow> 'b Request option
     \<Rightarrow> ('b, 'r, 's, 'w) Middlewares \<Rightarrow> 'w
     \<Rightarrow> (panic + 'r option \<times> error option) \<times> ('b, 'r, 's, 'w) Middlewares \<times> 'w" where
  "Decorator_QueryData d ctx req h w =
     (case req of
        None \<Rightarrow> (Inr (None, Some errNilRequest), h, w)
      | Some r \<Rightarrow>
          (let ctx1 = WithEndpoint ctx EndpointQueryData;
               ctx2 = WithPluginContext ctx1 (PluginContext r);
               ctx3 = WithUser ctx2 (User (PluginContext r))
           in case clientFromMiddlewares h (middlewares d) (client d) w of
                (Inl p, h', w') \<Rightarrow> (Inl p, h', w')
              | (Inr c, h', w') \<Rightarrow>
                  (case invoke c (\<lambda>impl. QueryData impl ctx3 r) w' of
                     (res, w'') \<Rightarrow> (res, h', w''))))"

definition Decorator_CallResource ::
  "('b, 'r, 's, 'w) Decorator \<Rightarrow> Context \<Rightarrow> 'b Request option \<Rightarrow> 's option
     \<Rightarrow> ('b, 'r, 's, 'w) Middlewares \<Rightarrow> 'w
     \<Rightarrow> (panic + error option) \<times> ('b, 'r, 's, 'w) Middlewares \<times> 'w" where
  "Decorator_CallResource d ctx req sender h w =
     (case req of
        None \<Rightarrow> (Inr (Some errNilRequest), h, w)
      | Some r \<Rightarrow>
          (let ctx1 = WithEndpoint ctx EndpointCallResource;
               ctx2 = WithPluginContext ctx1 (PluginContext r);
               ctx3 = WithUser ctx2 (User (PluginContext r))
           in case sender of
                None \<Rightarrow> (Inr (Some (errorsNew ''sender cannot be nil'')), h, w)
              | Some sndr \<Rightarrow>
                  (case clientFromMiddlewares h (middlewares d) (client d) w of
                     (Inl p, h', w') \<Rightarrow> (Inl p, h', w')
                   | (Inr c, h', w') \<Rightarrow>
                       (case invoke c (\<lambda>impl. CallResource impl ctx3 r sndr) w' of
                          (res, w'') \<Rightarrow> (res, h', w'')))))"

definition Decorator_CollectMetrics ::
  "('b, 'r, 's, 'w) Decorator \<Rightarrow> Context \<Rightarrow> 'b Request option
     \<Rightarrow> ('b, 'r, 's, 'w) Middlewares \<Rightarrow> 'w
     \<Rightarrow> (panic + 'r option \<times> error option) \<times> ('b, 'r, 's, 'w) Middlewares \<times> 'w" where
  "Decorator_CollectMetrics d ctx req h w =
     (case req of
        None \<Rightarrow> (Inr (None, Some errNilRequest), h, w)
      | Some r \<Rightarrow>
          (let ctx1 = WithEndpoint ctx EndpointCollectMetrics;
               ctx2 = WithPluginContext ctx1 (PluginContext r);
               ctx3 = WithUser ctx2 (User (PluginContext r))
           in case clientFromMiddlewares h (middlewares d) (client d) w of
                (Inl p, h', w') \<Rightarrow> (Inl p, h', w')
              | (Inr c, h', w') \<Rightarrow>
                  (case invoke c (\<lambda>impl. CollectMetrics impl ctx3 r) w' of
                     (res, w'') \<Rightarrow> (res, h', w''))))"

definition Decorator_CheckHealth ::
  "('b, 'r, 's, 'w) Decorator \<Rightarrow> Context \<Rightarrow> 'b Request option
     \<Rightarrow> ('b, 'r, 's, 'w) Middlewares \<Rightarrow> 'w
     \<Rightarrow> (panic + 'r option \<times> error option) \<times> ('b, 'r, 's, 'w) Middlewares \<times> 'w" where
  "Decorator_CheckHealth d ctx req h w =
     (case req of
        None \<Rightarrow> (Inr (None, Some errNilRequest), h, w)
      | Some r \<Rightarrow>
          (let ctx1 = WithEndpoint ctx EndpointCheckHealth;
               ctx2 = WithPluginContext ctx1 (PluginContext r);
               ctx3 = WithUser ctx2 (User (PluginContext r))
           in case clientFromMiddlewares h (middlewares d) (client d) w of
                (Inl p, h', w') \<Rightarrow> (Inl p, h', w')
              | (Inr c, h', w') \<Rightarrow>
                  (case invoke c (\<lambda>impl. CheckHealth impl ctx3 r) w' of
                     (res, w'') \<Rightarrow> (res, h', w''))))"

definition Decorator_SubscribeStream ::
  "('b, 'r, 's, 'w) Decorator \<Rightarrow> Context \<Rightarrow> 'b Request option
     \<Rightarrow> ('b, 'r, 's, 'w) Middlewares \<Rightarrow> 'w
     \<Rightarrow> (panic + 'r option \<times> error option) \<times> ('b, 'r, 's, 'w) Middlewares \<times> 'w" where
  "Decorator_SubscribeStream d ctx req h w =
     (case req of
        None \<Rightarrow> (Inr (None, Some errNilRequest), h, w)
      | Some r \<Rightarrow>
          (let ctx1 = WithEndpoint ctx EndpointSubscribeStream;
               ctx2 = WithPluginContext ctx1 (PluginContext r);
               ctx3 = WithUser ctx2 (User (PluginContext r))
           in case clientFromMiddlewares h (middlewares d) (client d) w of
                (Inl p, h', w') \<Rightarrow> (Inl p, h', w')
              | (Inr c, h', w') \<Rightarrow>
                  (case invoke c (\<lambda>impl. SubscribeStream impl ctx3 r) w' of
                     (res, w'') \<Rightarrow> (res, h', w''))))"

definition Decorator_PublishStream ::
  "('b, 'r, 's, 'w) Decorator \<Rightarrow> Context \<Rightarrow> 'b Request option
     \<Rightarrow> ('b, 'r, 's, 'w) Middlewares \<Rightarrow> 'w
     \<Rightarrow> (panic + 'r option \<times> error option) \<times> ('b, 'r, 's, 'w) Middlewares \<times> 'w" where
  "Decorator_PublishStream d ctx req h w =
     (case req of
        None \<Rightarrow> (Inr (None, Some errNilRequest), h, w)
      | Some r \<Rightarrow>
          (let ctx1 = WithEndpoint ctx EndpointPublishStream;
               ctx2 = WithPluginContext ctx1 (PluginContext r);
               ctx3 = WithUser ctx2 (User (PluginContext r))
           in case clientFromMiddlewares h (middlewares d) (client d) w of
                (Inl p, h', w') \<Rightarrow> (Inl p, h', w')
              | (Inr c, h', w') \<Rightarrow>
                  (case invoke c (\<lambda>impl. PublishStream impl ctx3 r) w' of
                     (res, w'') \<Rightarrow> (res, h', w''))))"

definition Decorator_RunStream ::
  "('b, 'r, 's, 'w) Decorator \<Rightarrow> Context \<Rightarrow> 'b Request option \<Rightarrow> 's option
     \<Rightarrow> ('b, 'r, 's, 'w) Middlewares \<Rightarrow> 'w
     \<Rightarrow> (panic + error option) \<times> ('b, 'r, 's, 'w) Middlewares \<times> 'w" where
  "Decorator_RunStream d ctx req sender h w =
     (case req of
        None \<Rightarrow> (Inr (Some errNilRequest), h, w)
      | Some r \<Rightarrow>
          (let ctx1 = WithEndpoint ctx EndpointRunStream;
               ctx2 = WithPluginContext ctx1 (PluginContext r);
               ctx3 = WithUser ctx2 (User (PluginContext r))
           in case sender of
                None \<Rightarrow> (Inr (Some (errorsNew ''sender cannot be nil'')), h, w)
              | Some sndr \<Rightarrow>
                  (case clientFromMiddlewares h (middlewares d) (client d) w of
                     (Inl p, h', w') \<Rightarrow> (Inl p, h', w')
                   | (Inr c, h', w') \<Rightarrow>
                       (case invoke c (\<lambda>impl. RunStream impl ctx3 r sndr) w' of
                          (res, w'') \<Rightarrow> (res, h', w'')))))"

definition Decorator_ValidateAdmission ::
  "('b, 'r, 's, 'w) Decorator \<Rightarrow> Context \<Rightarrow> 'b Request option
     \<Rightarrow> ('b, 'r, 's, 'w) Middlewares \<Rightarrow> 'w
     \<Rightarrow> (panic + 'r option \<times> error option) \<times> ('b, 'r, 's, 'w) Middlewares \<times> 'w" where
  "Decorator_ValidateAdmission d ctx req h w =
     (case req of
        None \<Rightarrow> (Inr (None, Some errNilRequest), h, w)
      | Some r \<Rightarrow>
          (let ctx1 = WithEndpoint ctx EndpointValidateAdmission;
               ctx2 = WithPluginContext ctx1 (PluginContext r);
               ctx3 = WithUser ctx2 (User (PluginContext r))
           in case clientFromMiddlewares h (middlewares d) (client d) w of
                (Inl p, h', w') \<Rightarrow> (Inl p, h', w')
              | (Inr c, h', w') \<Rightarrow>
                  (case invoke c (\<lambda>impl. ValidateAdmission impl ctx3 r) w' of
                     (res, w'') \<Rightarrow> (res, h', w''))))"

definition Decorator_MutateAdmission ::
  "('b, 'r, 's, 'w) Decorator \<Rightarrow> Context \<Rightarrow> 'b Request option
     \<Rightarrow> ('b, 'r, 's, 'w) Middlewares \<Rightarrow> 'w
     \<Rightarrow> (panic + 'r option \<times> error option) \<times> ('b, 'r, 's, 'w) Middlewares \<times> 'w" where
  "Decorator_MutateAdmission d ctx req h w =
     (case req of
        None \<Rightarrow> (Inr (None, Some errNilRequest), h, w)
      | Some r \<Rightarrow>
          (let ctx1 = WithEndpoint ctx EndpointMutateAdmission;
               ctx2 = WithPluginContext ctx1 (PluginContext r);
               ctx3 = WithUser ctx2 (User (PluginContext r))
           in case clientFromMiddlewares h (middlewares d) (client d) w of
                (Inl p, h', w') \<Rightarrow> (Inl p, h', w')
              | (Inr c, h', w') \<Rightarrow>
                  (case invoke c (\<lambda>impl. MutateAdmission impl ctx3 r) w' of
                     (res, w'') \<Rightarrow> (res, h', w''))))"

definition Decorator_ConvertObjects ::
  "('b, 'r, 's, 'w) Decorator \<Rightarrow> Context \<Rightarrow> 'b Request option
     \<Rightarrow> ('b, 'r, 's, 'w) Middlewares \<Rightarrow> 'w
     \<Rightarrow> (panic + 'r option \<times> error option) \<times> ('b, 'r, 's, 'w) Middlewares \<times> 'w" where
  "Decorator_ConvertObjects d ctx req h w =
     (case req of
        None \<Rightarrow> (Inr (None, Some errNilRequest), h, w)
      | Some r \<Rightarrow>
          (let ctx1 = WithEndpoint ctx EndpointConvertObject;
               ctx2 = WithPluginContext ctx1 (PluginContext r);
               ctx3 = WithUser ctx2 (User (PluginContext r))
           in case clientFromMiddlewares h (middlewares d) (client d) w of
                (Inl p, h', w') \<Rightarrow> (Inl p, h', w')
              | (Inr c, h', w') \<Rightarrow>
                  (case invoke c (\<lambda>impl. ConvertObjects impl ctx3 r) w' of
                     (res, w'') \<Rightarrow> (res, h', w''))))"

text \<open>An example middleware: it wraps the name of the next client and logs its tag.\<close>

definition tagging :: "string \<Rightarrow> (string, string list) ClientMiddleware" where
  "tagging t = (\<lambda>next w. (t @ ''('' @ next @ '')'', w @ [t]))"

section \<open>The resource store: pkg/storage/unified/resource/resource.proto\<close>

text \<open>
  The file declares the messages and the services \<open>ResourceStore\<close> and
  \<open>Diagnostics\<close>. The engine that implements the services is not part of it: the
  write path (VersionAuthority and RecordStore) is modelled below from the
  specification, sections 3, 4.1 and 4.2, as a sequential machine. The key validation
  in front of it, the list engine and the watch hub are not modelled.
\<close>

subsection \<open>Messages declared in the file\<close>

type_synonym bytes = "nat list"

record ResourceKey =
  namespace :: string
  group :: string
  resource :: string
  name :: string

datatype WatchEvent_Type = UNKNOWN | ADDED | MODIFIED | DELETED | BOOKMARK | ERROR

subsection \<open>The data model\<close>

text \<open>
  Modelled from the spec: the Record (section 3), the stored unit per key, with its
  payload, version, size, hash and partial metadata. The engine that builds it is
  not in the sources. Versions are unbounded integers, as the spec's ordering
  requires.
\<close>

record Record =
  rvalue :: bytes
  resourceVersion :: int
  rsize :: nat
  hash :: string
  partialMetadata :: bytes

text \<open>
  Modelled from the spec: the Tombstone (section 3), a deletion marker with the
  version of the delete and the preceding live Record. A key holds a live Record or
  a Tombstone.
\<close>

record Tombstone =
  deletedAt :: int
  previous :: "Record option"

datatype Entry = Live Record | Dead Tombstone

text \<open>
  Modelled from the spec: the commit event that every mutating call appends to the
  stream (section 4.2), with the event type, the version, the new Record (none for a
  delete) and the prior Record.
\<close>

record Commit =
  ckey :: ResourceKey
  ctype :: WatchEvent_Type
  cversion :: int
  crecord :: "Record option"
  cprevious :: "Record option"

text \<open>Modelled from the spec: the failure taxonomy of section 7.\<close>

datatype failure =
  NotFound | AlreadyExists | Conflict | VersionTooOld | Invalid | Unavailable | Cancelled

text \<open>
  Modelled from the spec: the state of the store. The version counter belongs to the
  VersionAuthority, the keyed entries and the commit stream (which is also the
  history) to the RecordStore; \<open>horizon\<close> is the oldest version still retained
  (the spec leaves the retention policy open, and no operation here moves it).
\<close>

record Store =
  counter :: int
  records :: "ResourceKey \<Rightarrow> Entry option"
  commits :: "Commit list"
  horizon :: int

text \<open>
  Modelled from the spec: what the spec leaves to the implementation and treats as
  opaque: the hash and the metadata derived from a payload, the uid inside a payload,
  and the generator of a name for a Create without one.
\<close>

record Engine =
  hashOf :: "bytes \<Rightarrow> string"
  metaOf :: "bytes \<Rightarrow> bytes"
  uidOf :: "bytes \<Rightarrow> string"
  genName :: "Store \<Rightarrow> ResourceKey \<Rightarrow> string"

text \<open>Modelled from the spec: the store before any write.\<close>

definition empty_store :: Store where
  "empty_store = \<lparr>counter = 0, records = Map.empty, commits = [], horizon = 0\<rparr>"

subsection \<open>VersionAuthority\<close>

text \<open>
  Modelled from the spec: \<open>next()\<close> of section 4.1, called once per committed
  mutation; it returns a value greater than any issued before. The counter is a
  ticket dispenser (section 9); the first version issued is 1, as in the scenario of
  section 8.
\<close>

definition VersionAuthority_next :: "Store \<Rightarrow> int \<times> Store" where
  "VersionAuthority_next st = (counter st + 1, st\<lparr>counter := counter st + 1\<rparr>)"

subsection \<open>RecordStore\<close>

text \<open>
  Modelled from the spec: a Record's hash and size are derived from the value and
  recomputed on every write (section 3).
\<close>

definition mkRecord :: "Engine \<Rightarrow> bytes \<Rightarrow> int \<Rightarrow> Record" where
  "mkRecord eng v rv =
     \<lparr>rvalue = v, resourceVersion = rv, rsize = length v, hash = hashOf eng v,
      partialMetadata = metaOf eng v\<rparr>"

text \<open>
  Modelled from the spec: persisting an entry and appending its commit event, in one
  step (section 4.2: exactly one commit event per mutating call, in the order of
  version assignment).
\<close>

definition commit :: "Commit \<Rightarrow> Entry \<Rightarrow> Store \<Rightarrow> Store" where
  "commit c e st = st\<lparr>records := (records st)(ckey c \<mapsto> e), commits := commits st @ [c]\<rparr>"

text \<open>
  Modelled from the spec: the key a Create writes: the given key, or the key with a
  generated name when the name is empty (section 4.2).
\<close>

definition createKey :: "Engine \<Rightarrow> ResourceKey \<Rightarrow> Store \<Rightarrow> ResourceKey" where
  "createKey eng key st = (if name key = [] then key\<lparr>name := genName eng st key\<rparr> else key)"

text \<open>Modelled from the spec: the live Record at a key, if there is one.\<close>

definition liveRecord :: "Store \<Rightarrow> ResourceKey \<Rightarrow> Record option" where
  "liveRecord st key = (case records st key of Some (Live r) \<Rightarrow> Some r | _ \<Rightarrow> None)"

text \<open>
  Modelled from the spec: \<open>Create(key, value) -> Record\<close> (section 4.2). It fails
  with \<open>AlreadyExists\<close> if a live Record exists at the key; otherwise it takes a
  fresh version, computes hash and size, persists and emits a commit event.
\<close>

definition Create :: "Engine \<Rightarrow> ResourceKey \<Rightarrow> bytes \<Rightarrow> Store \<Rightarrow> (failure + Record) \<times> Store" where
  "Create eng key v st =
     (let k = createKey eng key st in
      case liveRecord st k of
        Some r \<Rightarrow> (Inl AlreadyExists, st)
      | None \<Rightarrow>
          (case VersionAuthority_next st of
             (rv, st1) \<Rightarrow>
               (let r = mkRecord eng v rv in
                (Inr r,
                 commit \<lparr>ckey = k, ctype = ADDED, cversion = rv, crecord = Some r,
                         cprevious = None\<rparr> (Live r) st1))))"

text \<open>
  Modelled from the spec: \<open>Update(key, expectedVersion, value) -> Record\<close>
  (section 4.2). It fails with \<open>NotFound\<close> if no live Record exists and with
  \<open>Conflict\<close> if the stored version is not the expected one; on success it takes a
  new version, persists, and emits a commit event tagged with the prior Record.
\<close>

definition Update ::
  "Engine \<Rightarrow> ResourceKey \<Rightarrow> int \<Rightarrow> bytes \<Rightarrow> Store \<Rightarrow> (failure + Record) \<times> Store" where
  "Update eng key expectedVersion v st =
     (case liveRecord st key of
        None \<Rightarrow> (Inl NotFound, st)
      | Some cur \<Rightarrow>
          if resourceVersion cur \<noteq> expectedVersion then (Inl Conflict, st)
          else
            (case VersionAuthority_next st of
               (rv, st1) \<Rightarrow>
                 (let r = mkRecord eng v rv in
                  (Inr r,
                   commit \<lparr>ckey = key, ctype = MODIFIED, cversion = rv, crecord = Some r,
                           cprevious = Some cur\<rparr> (Live r) st1))))"

text \<open>
  Modelled from the spec: \<open>Delete(key, expectedVersion, expectedUID) -> Tombstone\<close>
  (section 4.2), with the preconditions of Update and the optional uid precondition
  (section 7: \<open>Conflict\<close> is a failed version or uid precondition). It writes a
  Tombstone at a new version and keeps the prior live Record as \<open>previous\<close>.
\<close>

definition Delete ::
  "Engine \<Rightarrow> ResourceKey \<Rightarrow> int \<Rightarrow> string \<Rightarrow> Store \<Rightarrow> (failure + Tombstone) \<times> Store" where
  "Delete eng key expectedVersion expectedUID st =
     (case liveRecord st key of
        None \<Rightarrow> (Inl NotFound, st)
      | Some cur \<Rightarrow>
          if resourceVersion cur \<noteq> expectedVersion then (Inl Conflict, st)
          else if expectedUID \<noteq> [] \<and> uidOf eng (rvalue cur) \<noteq> expectedUID
          then (Inl Conflict, st)
          else
            (case VersionAuthority_next st of
               (rv, st1) \<Rightarrow>
                 (let t = \<lparr>deletedAt = rv, previous = Some cur\<rparr> in
                  (Inr t,
                   commit \<lparr>ckey = key, ctype = DELETED, cversion = rv, crecord = None,
                           cprevious = Some cur\<rparr> (Dead t) st1))))"

text \<open>
  Modelled from the spec: \<open>Read(key, atVersion|latest) -> Record\<close> (section 4.2).
  It fails with \<open>NotFound\<close> if the key is absent at that scope and with
  \<open>VersionTooOld\<close> if the version asked for is lower than what is retained. A read
  at a version finds the last commit of the key at or below that version.
\<close>

datatype ReadAt = Latest | AtVersion int

fun lastCommit :: "Commit list \<Rightarrow> ResourceKey \<Rightarrow> int \<Rightarrow> Commit option" where
  "lastCommit [] key v = None"
| "lastCommit (c # cs) key v =
     (case lastCommit cs key v of
        Some c' \<Rightarrow> Some c'
      | None \<Rightarrow> if ckey c = key \<and> cversion c \<le> v then Some c else None)"

definition Read :: "ResourceKey \<Rightarrow> ReadAt \<Rightarrow> Store \<Rightarrow> failure + Record" where
  "Read key at st =
     (case at of
        Latest \<Rightarrow> (case liveRecord st key of None \<Rightarrow> Inl NotFound | Some r \<Rightarrow> Inr r)
      | AtVersion v \<Rightarrow>
          if v < horizon st then Inl VersionTooOld
          else
            (case lastCommit (commits st) key v of
               None \<Rightarrow> Inl NotFound
             | Some c \<Rightarrow> (case crecord c of None \<Rightarrow> Inl NotFound | Some r \<Rightarrow> Inr r)))"

subsection \<open>Sequences of mutations\<close>

text \<open>
  Modelled from the spec: a sequence of Create, Update and Delete calls on arbitrary
  keys, run one after the other (version assignment is the one serialization point,
  section 5). Each call answers with a failure or with the version it was issued.
\<close>

datatype Mutation =
    OpCreate ResourceKey bytes
  | OpUpdate ResourceKey int bytes
  | OpDelete ResourceKey int string

fun apply_mutation :: "Engine \<Rightarrow> Mutation \<Rightarrow> Store \<Rightarrow> (failure + int) \<times> Store" where
  "apply_mutation eng (OpCreate key v) st =
     (case Create eng key v st of (res, st') \<Rightarrow> (map_sum id resourceVersion res, st'))"
| "apply_mutation eng (OpUpdate key rv v) st =
     (case Update eng key rv v st of (res, st') \<Rightarrow> (map_sum id resourceVersion res, st'))"
| "apply_mutation eng (OpDelete key rv uid) st =
     (case Delete eng key rv uid st of (res, st') \<Rightarrow> (map_sum id deletedAt res, st'))"

fun run :: "Engine \<Rightarrow> Mutation list \<Rightarrow> Store \<Rightarrow> (failure + int) list \<times> Store" where
  "run eng [] st = ([], st)"
| "run eng (m # ms) st =
     (case apply_mutation eng m st of
        (res, st1) \<Rightarrow> (case run eng ms st1 of (rs, st2) \<Rightarrow> (res # rs, st2)))"

text \<open>The versions issued by a run, in the order of the calls.\<close>

fun issued :: "(failure + int) list \<Rightarrow> int list" where
  "issued [] = []"
| "issued (Inl f # rs) = issued rs"
| "issued (Inr v # rs) = v # issued rs"

text \<open>Example values: an engine, two keys of one collection.\<close>

definition eng0 :: Engine where
  "eng0 = \<lparr>hashOf = (\<lambda>v. []), metaOf = (\<lambda>v. []), uidOf = (\<lambda>v. []),
           genName = (\<lambda>st k. ''generated'')\<rparr>"

definition keyA :: ResourceKey where
  "keyA = \<lparr>namespace = ''default'', group = ''apps'', resource = ''dashboards'', name = ''a''\<rparr>"

definition keyB :: ResourceKey where
  "keyB = \<lparr>namespace = ''default'', group = ''apps'', resource = ''dashboards'', name = ''b''\<rparr>"

section \<open>Properties of the decorator\<close>

subsection \<open>The swap loop reverses a copy\<close>

text \<open>
  The loop invariant, pointwise: after the loop from \<open>i\<close> to \<open>j\<close>, the cells
  of the window between the two indices are mirrored, every other cell of the array
  is as before, and no other array of the store is written. No index is out of
  range.
\<close>

lemma reverse_loop_window:
  "arr s < length h \<Longrightarrow> off s + len s \<le> length (h ! arr s) \<Longrightarrow> 0 \<le> i \<Longrightarrow> j < int (len s) \<Longrightarrow>
   \<exists>a'. reverse_loop h s i j = Inr (h[arr s := a']) \<and> length a' = length (h ! arr s) \<and>
     (\<forall>k < length a'. a' ! k =
        (if off s + nat i \<le> k \<and> int k \<le> int (off s) + j
         then (h ! arr s) ! (off s + nat i + (off s + nat j) - k) else (h ! arr s) ! k))"
proof (induction h s i j rule: reverse_loop.induct)
  case (1 h s i j)
  let ?a = "h ! arr s"
  show ?case
  proof (cases "i < j")
    case False
    have "reverse_loop h s i j = Inr (h[arr s := ?a])"
      using False by (simp add: reverse_loop.simps[of h s i j])
    moreover have "\<forall>k < length ?a. ?a ! k =
        (if off s + nat i \<le> k \<and> int k \<le> int (off s) + j
         then ?a ! (off s + nat i + (off s + nat j) - k) else ?a ! k)"
    proof (intro allI impI)
      fix k assume "k < length ?a"
      show "?a ! k = (if off s + nat i \<le> k \<and> int k \<le> int (off s) + j
         then ?a ! (off s + nat i + (off s + nat j) - k) else ?a ! k)"
      proof (cases "off s + nat i \<le> k \<and> int k \<le> int (off s) + j")
        case True
        with False "1.prems" have "i = j" "k = off s + nat i" by linarith+
        then show ?thesis by simp
      next
        case False
        then show ?thesis by auto
      qed
    qed
    ultimately show ?thesis by blast
  next
    case True
    define pi where "pi = off s + nat i"
    define pj where "pj = off s + nat j"
    have bi: "pi < length ?a" and bj: "pj < length ?a" and lt: "pi < pj"
      using True "1.prems" by (auto simp: pi_def pj_def)
    have gj: "slice_get h s j = Inr (?a ! pj)"
      using True "1.prems" by (auto simp: slice_get_def pj_def)
    have gi: "slice_get h s i = Inr (?a ! pi)"
      using True "1.prems" by (auto simp: slice_get_def pi_def)
    define h1 where "h1 = h[arr s := ?a[pi := ?a ! pj]]"
    have s1: "slice_set h s i (?a ! pj) = Inr h1"
      using True "1.prems" by (auto simp: slice_set_def pi_def h1_def)
    define a2 where "a2 = ?a[pi := ?a ! pj, pj := ?a ! pi]"
    define h2 where "h2 = h[arr s := a2]"
    have h1a: "h1 ! arr s = ?a[pi := ?a ! pj]"
      using "1.prems" by (simp add: h1_def)
    have s2: "slice_set h1 s j (?a ! pi) = Inr h2"
      using True "1.prems" h1a by (auto simp: slice_set_def pj_def h1_def h2_def a2_def)
    have h2a: "h2 ! arr s = a2" using "1.prems" by (simp add: h2_def)
    have step: "reverse_loop h s i j = reverse_loop h2 s (i + 1) (j - 1)"
      using True gj gi s1 s2 by (simp add: reverse_loop.simps[of h s i j])
    have pre: "arr s < length h2" "off s + len s \<le> length (h2 ! arr s)" "0 \<le> i + 1" "j - 1 < int (len s)"
      using "1.prems" h2a by (auto simp: h2_def a2_def)
    from "1.IH"[OF True gj gi s1 s2 pre]
    obtain a' where a': "reverse_loop h2 s (i + 1) (j - 1) = Inr (h2[arr s := a'])"
      "length a' = length a2"
      "\<forall>k < length a'. a' ! k =
        (if off s + nat (i + 1) \<le> k \<and> int k \<le> int (off s) + (j - 1)
         then a2 ! (off s + nat (i + 1) + (off s + nat (j - 1)) - k) else a2 ! k)"
      using h2a by auto
    have la: "length a2 = length ?a" by (simp add: a2_def)
    have e1: "h2[arr s := a'] = h[arr s := a']" by (simp add: h2_def)
    have pt: "\<forall>k < length a'. a' ! k =
        (if pi \<le> k \<and> k \<le> pj then ?a ! (pi + pj - k) else ?a ! k)"
    proof (intro allI impI)
      fix k assume k: "k < length a'"
      have n1: "off s + nat (i + 1) = pi + 1" using "1.prems" by (simp add: pi_def nat_add_distrib)
      have n2: "off s + nat (j - 1) = pj - 1" using True "1.prems" by (simp add: pj_def nat_diff_distrib)
      have c: "(int k \<le> int (off s) + (j - 1)) = (k \<le> pj - 1)"
        using True "1.prems" by (auto simp: pj_def)
      note raw = a'(3)[rule_format, OF k]
      have ak: "a' ! k = (if pi + 1 \<le> k \<and> k \<le> pj - 1 then a2 ! (pi + 1 + (pj - 1) - k) else a2 ! k)"
        using raw by (simp only: c n1 n2)
      show "a' ! k = (if pi \<le> k \<and> k \<le> pj then ?a ! (pi + pj - k) else ?a ! k)"
      proof (cases "pi + 1 \<le> k \<and> k \<le> pj - 1")
        case True
        then have "pi + 1 + (pj - 1) - k = pi + pj - k" "pi + pj - k \<noteq> pi" "pi + pj - k \<noteq> pj"
          "pi \<le> k" "k \<le> pj" by linarith+
        then show ?thesis using True ak bi bj by (simp add: a2_def)
      next
        case False
        then consider "k = pi" | "k = pj" | "k < pi" | "pj < k" using lt by linarith
        then show ?thesis
        proof cases
          case 1 then show ?thesis using ak False bi bj lt by (simp add: a2_def)
        next
          case 2 then show ?thesis using ak False bi bj lt by (simp add: a2_def)
        next
          case 3 then show ?thesis using ak False bi bj lt by (simp add: a2_def)
        next
          case 4 then show ?thesis using ak False bi bj lt by (simp add: a2_def)
        qed
      qed
    qed
    have c2: "\<And>k. (off s + nat i \<le> k \<and> int k \<le> int (off s) + j) = (pi \<le> k \<and> k \<le> pj)"
      using True "1.prems" by (auto simp: pi_def pj_def)
    have res: "reverse_loop h s i j = Inr (h[arr s := a'])"
      using step a'(1) e1 by simp
    have len': "length a' = length ?a" using a'(2) la by simp
    have pt': "\<forall>k < length a'. a' ! k =
        (if off s + nat i \<le> k \<and> int k \<le> int (off s) + j
         then ?a ! (off s + nat i + (off s + nat j) - k) else ?a ! k)"
      using pt unfolding c2 pi_def pj_def by simp
    show ?thesis using res len' pt' by blast
  qed
qed

lemma copy_slice_fresh:
  assumes "valid_slice h s"
  shows "copy_slice (h @ [replicate (len s) None]) \<lparr>arr = length h, off = 0, len = len s\<rparr> s
           = h @ [slice_elems h s]"
proof (cases "len s = 0")
  case True
  then show ?thesis by (simp add: copy_slice_def slice_elems_def)
next
  case False
  with assms have v: "arr s < length h" "off s + len s \<le> length (h ! arr s)"
    by (auto simp: valid_slice_def)
  then show ?thesis using False
    by (simp add: copy_slice_def slice_elems_def Let_def nth_append)
qed

lemma length_slice_elems:
  "valid_slice h s \<Longrightarrow> length (slice_elems h s) = len s"
  by (auto simp: valid_slice_def slice_elems_def)

text \<open>
  \<open>reverseMiddlewares\<close> allocates one array, holding the entries of its argument
  in reverse order, and leaves the store as it was otherwise.
\<close>

lemma reverseMiddlewares_rev:
  assumes "valid_slice h s"
  shows "reverseMiddlewares h s =
           Inr (h @ [rev (slice_elems h s)], \<lparr>arr = length h, off = 0, len = len s\<rparr>)"
proof -
  define es where "es = slice_elems h s"
  define r where "r = \<lparr>arr = length h, off = 0, len = len s\<rparr>"
  define h2 where "h2 = h @ [es]"
  have n: "length es = len s" using assms by (simp add: es_def length_slice_elems)
  have cp: "copy_slice (h @ [replicate (len s) None]) r s = h2"
    using copy_slice_fresh[OF assms] by (simp add: r_def h2_def es_def)
  have pre: "arr r < length h2" "off r + len r \<le> length (h2 ! arr r)" "(0::int) \<le> 0"
    "int (len r) - 1 < int (len r)"
    using n by (simp_all add: r_def h2_def)
  from reverse_loop_window[OF pre]
  obtain a' where a': "reverse_loop h2 r 0 (int (len r) - 1) = Inr (h2[arr r := a'])"
    "length a' = length (h2 ! arr r)"
    "\<forall>k < length a'. a' ! k =
        (if off r + nat 0 \<le> k \<and> int k \<le> int (off r) + (int (len r) - 1)
         then (h2 ! arr r) ! (off r + nat 0 + (off r + nat (int (len r) - 1)) - k)
         else (h2 ! arr r) ! k)"
    by blast
  have h2r: "h2 ! arr r = es" by (simp add: h2_def r_def)
  have la: "length a' = length es" using a'(2) h2r by simp
  have "a' = rev es"
  proof (rule nth_equalityI)
    show "length a' = length (rev es)" using la by simp
  next
    fix k assume k: "k < length a'"
    then have kn: "k < len s" using la n by simp
    have "a' ! k = es ! (nat (int (len s) - 1) - k)"
      using a'(3)[rule_format, OF k] kn by (simp add: h2_def r_def)
    also have "nat (int (len s) - 1) - k = length es - Suc k" using n kn by simp
    also have "es ! (length es - Suc k) = rev es ! k"
      using kn n by (simp add: rev_nth)
    finally show "a' ! k = rev es ! k" .
  qed
  then have "reverse_loop h2 r 0 (int (len r) - 1) = Inr (h @ [rev es])"
    using a'(1) by (simp add: h2_def r_def)
  then show ?thesis
    using cp by (simp add: reverseMiddlewares_def make_slice_def r_def es_def)
qed

subsection \<open>The range loop builds the chain\<close>

lemma range_loop_append:
  "range_loop (xs @ ys) c w =
     (case range_loop xs c w of
        (Inl p, w') \<Rightarrow> (Inl p, w')
      | (Inr c', w') \<Rightarrow> range_loop ys c' w')"
  by (induction xs arbitrary: c w) (auto split: option.splits prod.splits)

lemma range_loop_chain:
  "range_loop (map Some (rev ms)) c w = (case chain ms c w of (c', w') \<Rightarrow> (Inr c', w'))"
  by (induction ms arbitrary: c w) (auto simp: range_loop_append split: prod.splits)

text \<open>
  In the chain every middleware is called exactly once, the last of the list first:
  with each middleware recording its index, the log of calls is the list of indices
  in reverse.
\<close>

lemma chain_traced:
  "chain (map (\<lambda>(i, m). traced i m) (zip [k..<k + length ms] ms)) c (w, calls) =
     (case chain ms c w of (c', w') \<Rightarrow> (c', (w', calls @ rev [k..<k + length ms])))"
proof (induction ms arbitrary: k calls)
  case Nil
  then show ?case by simp
next
  case (Cons m ms)
  have u: "[k..<k + length (m # ms)] = k # [Suc k..<Suc k + length ms]"
    using upt_conv_Cons[of k "k + length (m # ms)"] by simp
  show ?case
    unfolding u using Cons.IH[of "Suc k" calls]
    by (simp add: traced_def split: prod.splits)
qed

text \<open>
  C9. For every client and every middleware list, \<open>clientFromMiddlewares\<close> returns
  the final client unchanged when the list is empty, and otherwise the chain in which
  \<open>middlewares[0]\<close> is the outermost wrapper and the last middleware is the innermost
  one, directly around the final client; each middleware's
  \<open>CreateClientMiddleware\<close> is applied exactly once. A middleware list is a slice
  over the store whose entries are middlewares \<open>ms\<close> (a nil entry is not a
  middleware: calling its method panics). The chain is \<^const>\<open>chain\<close>, in which
  every element of \<open>ms\<close> is applied once (\<open>chain_traced\<close>); the state of the world
  after the call is the one the chain's calls leave, and the store gains the reversed
  copy only.
\<close>

theorem clientFromMiddlewares_chain:
  assumes "valid_slice h mws" and "slice_elems h mws = map Some ms"
  shows "clientFromMiddlewares h mws finalClient w =
           (if ms = [] then (Inr finalClient, h, w)
            else (case chain ms finalClient w of
                    (c, w') \<Rightarrow> (Inr c, h @ [map Some (rev ms)], w')))"
proof (cases "len mws = 0")
  case True
  then have "ms = []" using assms(2) by (simp add: slice_elems_def)
  then show ?thesis using True by (simp add: clientFromMiddlewares_def)
next
  case False
  have n: "length ms = len mws"
    using length_slice_elems[OF assms(1)] assms(2) by simp
  then have ne: "ms \<noteq> []" using False by auto
  define r where "r = \<lparr>arr = length h, off = 0, len = len mws\<rparr>"
  define h' where "h' = h @ [map Some (rev ms)]"
  have rv: "reverseMiddlewares h mws = Inr (h', r)"
    using reverseMiddlewares_rev[OF assms(1)] assms(2) by (simp add: r_def h'_def rev_map)
  have el: "slice_elems h' r = map Some (rev ms)"
    using n False by (simp add: slice_elems_def r_def h'_def)
  show ?thesis
    using False ne rv el
    by (simp add: clientFromMiddlewares_def range_loop_chain h'_def split: prod.splits)
qed

text \<open>
  An instance: two tagging middlewares \<open>A\<close> and \<open>B\<close> around the client
  \<open>final\<close>. The result is \<open>A(B(final))\<close>, and the log shows one call of each,
  \<open>B\<close> first.
\<close>

theorem clientFromMiddlewares_chain_witness:
  "valid_slice [[Some (tagging ''A''), Some (tagging ''B'')]] \<lparr>arr = 0, off = 0, len = 2\<rparr> \<and>
   slice_elems [[Some (tagging ''A''), Some (tagging ''B'')]] \<lparr>arr = 0, off = 0, len = 2\<rparr>
     = map Some [tagging ''A'', tagging ''B''] \<and>
   clientFromMiddlewares [[Some (tagging ''A''), Some (tagging ''B'')]]
       \<lparr>arr = 0, off = 0, len = 2\<rparr> ''final'' []
     = (Inr ''A(B(final))'',
        [[Some (tagging ''A''), Some (tagging ''B'')], [Some (tagging ''B''), Some (tagging ''A'')]],
        [''B'', ''A''])"
proof -
  have v: "valid_slice [[Some (tagging ''A''), Some (tagging ''B'')]] \<lparr>arr = 0, off = 0, len = 2\<rparr>"
    by (simp add: valid_slice_def)
  have e: "slice_elems [[Some (tagging ''A''), Some (tagging ''B'')]] \<lparr>arr = 0, off = 0, len = 2\<rparr>
     = map Some [tagging ''A'', tagging ''B'']"
    by (simp add: slice_elems_def)
  show ?thesis
    using v e clientFromMiddlewares_chain[OF v e, of "''final''" "[]"]
    by (simp add: tagging_def)
qed

subsection \<open>NewDecorator, and the caller's slice\<close>

text \<open>
  C10. \<open>NewDecorator\<close> returns a non-nil error exactly when the supplied client is
  nil; for every non-nil client it returns a Decorator holding that client and the
  given middlewares, and a nil error. \<open>reverseMiddlewares\<close> never mutates its input
  slice: for a slice of the store, its result is the store with one new array
  appended, and after \<open>clientFromMiddlewares\<close> every array that existed before,
  the caller's middleware list among them, is unchanged.
\<close>

theorem NewDecorator_input_unchanged:
  "(snd (NewDecorator cl mws) \<noteq> None) = (cl = None) \<and>
   NewDecorator (Some impl) mws = (Some \<lparr>client = Some impl, middlewares = mws\<rparr>, None) \<and>
   (valid_slice h mws \<longrightarrow>
      reverseMiddlewares h mws =
        Inr (h @ [rev (slice_elems h mws)], \<lparr>arr = length h, off = 0, len = len mws\<rparr>) \<and>
      (case clientFromMiddlewares h mws finalClient w of
         (res, h', w') \<Rightarrow> take (length h) h' = h \<and> slice_elems h' mws = slice_elems h mws))"
proof -
  have a: "(snd (NewDecorator cl mws) \<noteq> None) = (cl = None)"
    by (simp add: NewDecorator_def)
  have b: "NewDecorator (Some impl) mws = (Some \<lparr>client = Some impl, middlewares = mws\<rparr>, None)"
    by (simp add: NewDecorator_def)
  have c: "reverseMiddlewares h mws =
        Inr (h @ [rev (slice_elems h mws)], \<lparr>arr = length h, off = 0, len = len mws\<rparr>)"
    if "valid_slice h mws"
    using that by (rule reverseMiddlewares_rev)
  have d: "(case clientFromMiddlewares h mws finalClient w of
         (res, h', w') \<Rightarrow> take (length h) h' = h \<and> slice_elems h' mws = slice_elems h mws)"
    if v: "valid_slice h mws"
  proof (cases "len mws = 0")
    case True
    then show ?thesis by (simp add: clientFromMiddlewares_def)
  next
    case False
    with v have "arr mws < length h" by (simp add: valid_slice_def)
    then show ?thesis
      using False c[OF v]
      by (simp add: clientFromMiddlewares_def slice_elems_def nth_append split: prod.splits)
  qed
  show ?thesis by (intro conjI impI; rule a b c d; assumption)
qed

theorem NewDecorator_input_unchanged_witness:
  "valid_slice [[Some (tagging ''A''), Some (tagging ''B'')]] \<lparr>arr = 0, off = 0, len = 2\<rparr> \<and>
   reverseMiddlewares [[Some (tagging ''A''), Some (tagging ''B'')]] \<lparr>arr = 0, off = 0, len = 2\<rparr>
     = Inr ([[Some (tagging ''A''), Some (tagging ''B'')], [Some (tagging ''B''), Some (tagging ''A'')]],
            \<lparr>arr = 1, off = 0, len = 2\<rparr>)"
proof -
  have v: "valid_slice [[Some (tagging ''A''), Some (tagging ''B'')]] \<lparr>arr = 0, off = 0, len = 2\<rparr>"
    by (simp add: valid_slice_def)
  note t = NewDecorator_input_unchanged[of None "\<lparr>arr = 0, off = 0, len = 2\<rparr>" undefined
        "[[Some (tagging ''A''), Some (tagging ''B'')]]" "''final''" "[]"]
  from t v have "reverseMiddlewares [[Some (tagging ''A''), Some (tagging ''B'')]] \<lparr>arr = 0, off = 0, len = 2\<rparr>
     = Inr ([[Some (tagging ''A''), Some (tagging ''B'')]] @
             [rev (slice_elems [[Some (tagging ''A''), Some (tagging ''B'')]] \<lparr>arr = 0, off = 0, len = 2\<rparr>)],
            \<lparr>arr = length [[Some (tagging ''A''), Some (tagging ''B'')]], off = 0, len = len \<lparr>arr = 0, off = 0, len = 2\<rparr>\<rparr>)"
    by blast
  then show ?thesis
    using v by (simp add: slice_elems_def)
qed

subsection \<open>Nil requests and nil senders\<close>

text \<open>
  C8. Every method of the Decorator, called with a nil request, returns
  \<open>errNilRequest\<close> (and a nil result where it returns one); \<open>CallResource\<close> and
  \<open>RunStream\<close> return an error when the request is not nil and the sender is nil.
  In each case neither the wrapped client nor any middleware is invoked: whatever
  code the client and the middlewares of \<open>d\<close> are, the store and the state of the
  world come back as they were.
\<close>

theorem Decorator_nil_request:
  "Decorator_QueryData d ctx None h w = (Inr (None, Some errNilRequest), h, w) \<and>
   Decorator_CallResource d ctx None sender h w = (Inr (Some errNilRequest), h, w) \<and>
   Decorator_CollectMetrics d ctx None h w = (Inr (None, Some errNilRequest), h, w) \<and>
   Decorator_CheckHealth d ctx None h w = (Inr (None, Some errNilRequest), h, w) \<and>
   Decorator_SubscribeStream d ctx None h w = (Inr (None, Some errNilRequest), h, w) \<and>
   Decorator_PublishStream d ctx None h w = (Inr (None, Some errNilRequest), h, w) \<and>
   Decorator_RunStream d ctx None sender h w = (Inr (Some errNilRequest), h, w) \<and>
   Decorator_ValidateAdmission d ctx None h w = (Inr (None, Some errNilRequest), h, w) \<and>
   Decorator_MutateAdmission d ctx None h w = (Inr (None, Some errNilRequest), h, w) \<and>
   Decorator_ConvertObjects d ctx None h w = (Inr (None, Some errNilRequest), h, w) \<and>
   Decorator_CallResource d ctx (Some r) None h w
     = (Inr (Some (errorsNew ''sender cannot be nil'')), h, w) \<and>
   Decorator_RunStream d ctx (Some r) None h w
     = (Inr (Some (errorsNew ''sender cannot be nil'')), h, w)"
  by (simp add: Decorator_QueryData_def Decorator_CallResource_def Decorator_CollectMetrics_def
      Decorator_CheckHealth_def Decorator_SubscribeStream_def Decorator_PublishStream_def
      Decorator_RunStream_def Decorator_ValidateAdmission_def Decorator_MutateAdmission_def
      Decorator_ConvertObjects_def)

text \<open>
  With a request, the call does reach the client: without middlewares, the method of
  the wrapped client runs on the context extended with the endpoint, the plugin
  context and the user.
\<close>

lemma Decorator_QueryData_forwards:
  assumes "len (middlewares d) = 0" and "client d = Some impl"
  shows "Decorator_QueryData d ctx (Some r) h w =
           (case QueryData impl
                   (ctxUser (User (PluginContext r)) # ctxPluginContext (PluginContext r)
                      # ctxEndpoint EndpointQueryData # ctx) r w of
              (res, w') \<Rightarrow> (Inr res, h, w'))"
  using assms
  by (simp add: Decorator_QueryData_def clientFromMiddlewares_def invoke_def WithEndpoint_def
      WithPluginContext_def WithUser_def split: prod.splits)

section \<open>Properties of the modelled write path\<close>

text \<open>
  A mutation fails and leaves the store as it was, or it is issued the next version
  of the counter and appends one commit, changing the entry of that commit's key
  only.
\<close>

lemma apply_mutation_cases:
  assumes "apply_mutation eng m st = (res, st')"
  shows "(\<exists>f. res = Inl f \<and> st' = st) \<or>
         (res = Inr (counter st + 1) \<and> counter st' = counter st + 1 \<and>
          (\<exists>c. commits st' = commits st @ [c] \<and> cversion c = counter st + 1 \<and>
               (\<forall>k. k \<noteq> ckey c \<longrightarrow> records st' k = records st k)))"
proof (cases m)
  case (OpCreate key v)
  then show ?thesis using assms
    by (auto simp: Create_def VersionAuthority_next_def mkRecord_def Let_def commit_def
             split: option.splits)
next
  case (OpUpdate key rv v)
  then show ?thesis using assms
    by (auto simp: Update_def VersionAuthority_next_def mkRecord_def Let_def commit_def
             split: option.splits if_splits)
next
  case (OpDelete key rv uid)
  then show ?thesis using assms
    by (auto simp: Delete_def VersionAuthority_next_def Let_def commit_def
             split: option.splits if_splits)
qed

lemma run_issued:
  "sorted_wrt (<) (counter st # issued (fst (run eng ms st))) \<and>
   map cversion (commits (snd (run eng ms st))) =
     map cversion (commits st) @ issued (fst (run eng ms st))"
proof (induction ms arbitrary: st)
  case Nil
  then show ?case by simp
next
  case (Cons m ms)
  obtain res st1 where a: "apply_mutation eng m st = (res, st1)" by (cases "apply_mutation eng m st")
  obtain rs st2 where r: "run eng ms st1 = (rs, st2)" by (cases "run eng ms st1")
  have IH: "sorted_wrt (<) (counter st1 # issued rs)"
    "map cversion (commits st2) = map cversion (commits st1) @ issued rs"
    using Cons.IH[of st1] r by simp_all
  from apply_mutation_cases[OF a] show ?case
  proof
    assume "\<exists>f. res = Inl f \<and> st1 = st"
    then show ?thesis using a r IH by auto
  next
    assume s: "res = Inr (counter st + 1) \<and> counter st1 = counter st + 1 \<and>
          (\<exists>c. commits st1 = commits st @ [c] \<and> cversion c = counter st + 1 \<and>
               (\<forall>k. k \<noteq> ckey c \<longrightarrow> records st1 k = records st k))"
    then have "\<forall>x \<in> set (issued rs). counter st + 1 < x" using IH(1) by simp
    then have "\<forall>x \<in> set (issued rs). counter st < x" by fastforce
    then show ?thesis using a r IH s by auto
  qed
qed

lemma run_frame:
  "run eng ms st = (rs, st') \<Longrightarrow>
     \<exists>new. commits st' = commits st @ new \<and>
           (\<forall>k. k \<notin> ckey ` set new \<longrightarrow> records st' k = records st k)"
proof (induction ms arbitrary: st rs st')
  case Nil
  then show ?case by simp
next
  case (Cons m ms)
  obtain res st1 where a: "apply_mutation eng m st = (res, st1)" by (cases "apply_mutation eng m st")
  obtain rs2 st2 where r: "run eng ms st1 = (rs2, st2)" by (cases "run eng ms st1")
  have e: "st' = st2" using Cons.prems a r by simp
  from Cons.IH[OF r] obtain new where n:
    "commits st2 = commits st1 @ new"
    "\<forall>k. k \<notin> ckey ` set new \<longrightarrow> records st2 k = records st1 k" by blast
  from apply_mutation_cases[OF a] show ?case
  proof
    assume "\<exists>f. res = Inl f \<and> st1 = st"
    then show ?thesis using n e by auto
  next
    assume "res = Inr (counter st + 1) \<and> counter st1 = counter st + 1 \<and>
          (\<exists>c. commits st1 = commits st @ [c] \<and> cversion c = counter st + 1 \<and>
               (\<forall>k. k \<noteq> ckey c \<longrightarrow> records st1 k = records st k))"
    then obtain c where c: "commits st1 = commits st @ [c]"
      "\<forall>k. k \<noteq> ckey c \<longrightarrow> records st1 k = records st k" by blast
    have "commits st' = commits st @ (c # new)" using c(1) n(1) e by simp
    moreover have "\<forall>k. k \<notin> ckey ` set (c # new) \<longrightarrow> records st' k = records st k"
      using c(2) n(2) e by auto
    ultimately show ?thesis by blast
  qed
qed

text \<open>
  The scenario of the specification, section 8: Create of A returns version 1, the
  Update at version 1 returns version 2, a second Update at version 1 fails with
  Conflict, and Read of A returns version 2 with the second value.
\<close>

lemma scenario:
  "fst (run eng0 [OpCreate keyA [10], OpUpdate keyA 1 [20], OpUpdate keyA 1 [30]] empty_store)
     = [Inr 1, Inr 2, Inl Conflict] \<and>
   Read keyA Latest
     (snd (run eng0 [OpCreate keyA [10], OpUpdate keyA 1 [20], OpUpdate keyA 1 [30]] empty_store))
     = Inr \<lparr>rvalue = [20], resourceVersion = 2, rsize = 1, hash = [], partialMetadata = []\<rparr>"
  by (simp add: eng0_def keyA_def empty_store_def Create_def Update_def Read_def liveRecord_def
      createKey_def VersionAuthority_next_def mkRecord_def commit_def Let_def)

lemma created:
  "Create eng0 keyA [10] empty_store =
     (Inr \<lparr>rvalue = [10], resourceVersion = 1, rsize = 1, hash = [], partialMetadata = []\<rparr>,
      \<lparr>counter = 1,
       records = [keyA \<mapsto> Live \<lparr>rvalue = [10], resourceVersion = 1, rsize = 1, hash = [],
                                partialMetadata = []\<rparr>],
       commits = [\<lparr>ckey = keyA, ctype = ADDED, cversion = 1,
                   crecord = Some \<lparr>rvalue = [10], resourceVersion = 1, rsize = 1, hash = [],
                                   partialMetadata = []\<rparr>,
                   cprevious = None\<rparr>],
       horizon = 0\<rparr>)"
  by (simp add: eng0_def keyA_def empty_store_def Create_def liveRecord_def
      createKey_def VersionAuthority_next_def mkRecord_def commit_def Let_def)

text \<open>
  C1. For every sequence of Create, Update and Delete operations on arbitrary keys,
  started in any state of the store, the versions issued to the committed mutations
  are strictly increasing (and above the counter's value before the sequence), no
  version is issued twice, and they are the versions of the commits appended to the
  store's one commit stream, for all keys together.
\<close>

theorem versions_strictly_increasing:
  "sorted_wrt (<) (counter st # issued (fst (run eng ms st))) \<and>
   distinct (issued (fst (run eng ms st))) \<and>
   map cversion (commits (snd (run eng ms st))) =
     map cversion (commits st) @ issued (fst (run eng ms st))"
proof -
  have s: "sorted_wrt (<) (counter st # issued (fst (run eng ms st)))"
    and c: "map cversion (commits (snd (run eng ms st))) =
     map cversion (commits st) @ issued (fst (run eng ms st))"
    using run_issued[of st eng ms] by blast+
  from s have "sorted_wrt (<) (issued (fst (run eng ms st)))" by simp
  then have "distinct (issued (fst (run eng ms st)))"
    using strict_sorted_iff by blast
  with s c show ?thesis by blast
qed

text \<open>
  C3. An Update or a Delete whose supplied resourceVersion differs from the version
  of the live Record stored at the key fails with Conflict, and the store (the entry
  of that key, every other entry, the counter and the commit stream) is unchanged.
\<close>

theorem stale_version_conflict:
  assumes "liveRecord st key = Some cur" and "resourceVersion cur \<noteq> expectedVersion"
  shows "Update eng key expectedVersion v st = (Inl Conflict, st) \<and>
         Delete eng key expectedVersion uid st = (Inl Conflict, st)"
  using assms by (simp add: Update_def Delete_def)

theorem stale_version_conflict_witness:
  "liveRecord (snd (Create eng0 keyA [10] empty_store)) keyA =
     Some \<lparr>rvalue = [10], resourceVersion = 1, rsize = 1, hash = [], partialMetadata = []\<rparr> \<and>
   Update eng0 keyA 7 [20] (snd (Create eng0 keyA [10] empty_store)) =
     (Inl Conflict, snd (Create eng0 keyA [10] empty_store)) \<and>
   Delete eng0 keyA 7 [] (snd (Create eng0 keyA [10] empty_store)) =
     (Inl Conflict, snd (Create eng0 keyA [10] empty_store))"
proof -
  let ?r = "\<lparr>rvalue = [10], resourceVersion = 1, rsize = 1, hash = [], partialMetadata = []\<rparr>"
  let ?st = "snd (Create eng0 keyA [10] empty_store)"
  have l: "liveRecord ?st keyA = Some ?r"
    by (simp add: created liveRecord_def)
  have v: "resourceVersion ?r \<noteq> 7" by simp
  show ?thesis
    using l stale_version_conflict[OF l v, of eng0 "[20]" "[]"] by simp
qed

text \<open>
  C6. After a successful Create, and any further mutations none of which commits a
  change of the created key, Read of that key returns the Record that Create
  returned: the same value and the same resourceVersion.
\<close>

theorem Create_then_Read:
  assumes "Create eng key v st = (Inr r, st1)"
      and "run eng ms st1 = (rs, st2)"
      and "\<forall>c \<in> set (drop (length (commits st1)) (commits st2)). ckey c \<noteq> createKey eng key st"
  shows "Read (createKey eng key st) Latest st2 = Inr r"
proof -
  let ?k = "createKey eng key st"
  have l1: "records st1 ?k = Some (Live r)"
    using assms(1)
    by (auto simp: Create_def VersionAuthority_next_def Let_def commit_def
             split: option.splits)
  from run_frame[OF assms(2)] obtain new where n:
    "commits st2 = commits st1 @ new"
    "\<forall>k. k \<notin> ckey ` set new \<longrightarrow> records st2 k = records st1 k" by blast
  have "?k \<notin> ckey ` set new" using assms(3) n(1) by auto
  then have "records st2 ?k = Some (Live r)" using n(2) l1 by simp
  then show ?thesis by (simp add: Read_def liveRecord_def)
qed

theorem Create_then_Read_witness:
  "Create eng0 keyA [10] empty_store =
     (Inr \<lparr>rvalue = [10], resourceVersion = 1, rsize = 1, hash = [], partialMetadata = []\<rparr>,
      snd (Create eng0 keyA [10] empty_store)) \<and>
   fst (run eng0 [OpCreate keyB [20], OpUpdate keyA 7 [30]] (snd (Create eng0 keyA [10] empty_store)))
     = [Inr 2, Inl Conflict] \<and>
   Read keyA Latest
     (snd (run eng0 [OpCreate keyB [20], OpUpdate keyA 7 [30]]
        (snd (Create eng0 keyA [10] empty_store))))
     = Inr \<lparr>rvalue = [10], resourceVersion = 1, rsize = 1, hash = [], partialMetadata = []\<rparr>"
proof -
  let ?r = "\<lparr>rvalue = [10], resourceVersion = 1, rsize = 1, hash = [], partialMetadata = []\<rparr>"
  let ?st1 = "snd (Create eng0 keyA [10] empty_store)"
  let ?ms = "[OpCreate keyB [20], OpUpdate keyA 7 [30]]"
  have ne: "keyB \<noteq> keyA" by (simp add: keyA_def keyB_def)
  have k: "createKey eng0 keyA empty_store = keyA"
    by (simp add: createKey_def keyA_def)
  have c: "Create eng0 keyA [10] empty_store = (Inr ?r, ?st1)"
    by (simp add: created)
  have r: "run eng0 ?ms ?st1 = (fst (run eng0 ?ms ?st1), snd (run eng0 ?ms ?st1))"
    by simp
  have rs: "fst (run eng0 ?ms ?st1) = [Inr 2, Inl Conflict]"
    unfolding created snd_conv
    by (simp add: Create_def Update_def liveRecord_def createKey_def
        VersionAuthority_next_def mkRecord_def commit_def Let_def eng0_def keyA_def keyB_def)
  have cs: "commits (snd (run eng0 ?ms ?st1)) = commits ?st1 @
      [\<lparr>ckey = keyB, ctype = ADDED, cversion = 2,
        crecord = Some \<lparr>rvalue = [20], resourceVersion = 2, rsize = 1, hash = [],
                        partialMetadata = []\<rparr>,
        cprevious = None\<rparr>]"
    unfolding created snd_conv
    by (simp add: Create_def Update_def liveRecord_def createKey_def
        VersionAuthority_next_def mkRecord_def commit_def Let_def eng0_def keyA_def keyB_def)
  have f: "\<forall>c \<in> set (drop (length (commits ?st1)) (commits (snd (run eng0 ?ms ?st1)))).
             ckey c \<noteq> createKey eng0 keyA empty_store"
    unfolding cs k using ne by simp
  show ?thesis
    using c rs Create_then_Read[OF c r f] by (simp add: k)
qed

end
